theory Spec2Isabelle
  imports Complex_Main "HOL-Library.Sublist"
begin

section \<open>Book-summary video generator: the orchestration of main.py\<close>

text \<open>
  The program is one Python module. Its own logic is string handling for titles and
  paths, five bounded retry loops, the credential handling of two services, the
  conversion of subtitle cues into caption layers, and the work-list driver
  \<open>process_books\<close>. Every call into a library or a remote service is an explicit
  parameter of the model (an oracle that says what the call returned or raised), so
  that each branch of the source, the raising ones included, is a branch here.
\<close>

subsection \<open>Python strings\<close>

text \<open>
  A Python \<open>str\<close> is modelled as a \<open>string\<close>; a character stands for the code
  point of the same number, so the model covers the code points below 256.
  \<open>isspace\<close> is \<open>str.isspace\<close> on that range, \<open>strip\<close> is \<open>str.strip()\<close> with no
  argument, \<open>startswith\<close> is \<open>str.startswith\<close>, \<open>replace\<close> is \<open>str.replace(old, new)\<close>
  (every non-overlapping occurrence, left to right) and \<open>lower\<close> is \<open>str.lower()\<close>.
\<close>

definition isspace :: "char \<Rightarrow> bool" where
  "isspace c = (of_char c \<in> {9, 10, 11, 12, 13, 28, 29, 30, 31, 32, 133, 160 :: nat})"

definition strip :: "string \<Rightarrow> string" where
  "strip s = rev (dropWhile isspace (rev (dropWhile isspace s)))"

definition startswith :: "string \<Rightarrow> string \<Rightarrow> bool" where
  "startswith s p = prefix p s"

function replace :: "string \<Rightarrow> string \<Rightarrow> string \<Rightarrow> string" where
  "replace old new [] = (if old = [] then new else [])"
| "replace old new (c # cs) =
     (if old = [] then new @ c # replace old new cs
      else if prefix old (c # cs)
        then new @ replace old new (drop (length old) (c # cs))
        else c # replace old new cs)"
  by pat_completeness auto
termination
  by (relation "measure (\<lambda>(old, new, s). length s)") auto

definition lower_char :: "char \<Rightarrow> char" where
  "lower_char c =
     (let n = of_char c :: nat
      in if (65 \<le> n \<and> n \<le> 90) \<or> (192 \<le> n \<and> n \<le> 222 \<and> n \<noteq> 215)
         then char_of (n + 32) else c)"

definition lower :: "string \<Rightarrow> string" where
  "lower s = map lower_char s"

definition newline :: char where
  "newline = CHR 0x0A"

subsection \<open>Paths and the per-title directory\<close>

text \<open>
  \<open>Path(__file__).parent\<close> is the parameter \<open>parent\<close>; \<open>joinpath a b\<close> is the text of
  \<open>a / b\<close> for a relative right operand. The directory name of a title is computed
  at three places of the source by the same expression: in \<open>text_to_speech\<close> (line 75),
  in \<open>generate_book_thumbnail\<close> (line 139) and in \<open>process_books\<close> (line 332). Each place
  is transcribed on its own.
\<close>

definition joinpath :: "string \<Rightarrow> string \<Rightarrow> string" where
  "joinpath a b = a @ ''/'' @ b"

definition text_to_speech_safe_book_title :: "string \<Rightarrow> string" where
  "text_to_speech_safe_book_title book_title =
     lower (replace '':'' '''' (replace [CHR 0x22] '''' (replace '' '' ''_'' book_title)))"

definition text_to_speech_speech_file_path :: "string \<Rightarrow> string \<Rightarrow> string" where
  "text_to_speech_speech_file_path parent book_title =
     joinpath (joinpath parent (''Videos/'' @ text_to_speech_safe_book_title book_title))
       ''voice.mp3''"

definition generate_book_thumbnail_safe_book_title :: "string \<Rightarrow> string" where
  "generate_book_thumbnail_safe_book_title book_title =
     lower (replace '':'' '''' (replace [CHR 0x22] '''' (replace '' '' ''_'' book_title)))"

definition generate_book_thumbnail_image_path :: "string \<Rightarrow> string \<Rightarrow> string" where
  "generate_book_thumbnail_image_path parent book_title =
     joinpath parent
       (''Videos/'' @ generate_book_thumbnail_safe_book_title book_title @ ''/image.png'')"

definition process_books_safe_book_title :: "string \<Rightarrow> string" where
  "process_books_safe_book_title book_title =
     lower (replace '':'' '''' (replace [CHR 0x22] '''' (replace '' '' ''_'' book_title)))"

definition process_books_directory_path :: "string \<Rightarrow> string \<Rightarrow> string" where
  "process_books_directory_path parent book_title =
     joinpath parent (''Videos/'' @ process_books_safe_book_title book_title)"

definition process_books_image_path :: "string \<Rightarrow> string \<Rightarrow> string" where
  "process_books_image_path parent book_title =
     joinpath (process_books_directory_path parent book_title) ''image.png''"

definition process_books_audio_path :: "string \<Rightarrow> string \<Rightarrow> string" where
  "process_books_audio_path parent book_title =
     joinpath (process_books_directory_path parent book_title) ''voice.mp3''"

text \<open>
  The slug in the words of the specification: spaces become underscores, double quotes
  and colons are dropped, and the result is lowercased.
\<close>

definition slug_spec :: "string \<Rightarrow> string" where
  "slug_spec title =
     map lower_char
       (filter (\<lambda>c. c \<noteq> CHR 0x22 \<and> c \<noteq> CHR '':'')
         (map (\<lambda>c. if c = CHR '' '' then CHR ''_'' else c) title))"

subsection \<open>time_to_seconds and create_subtitle_clips (lines 191-209)\<close>

text \<open>
  A cue carries two times of four integer fields each. \<open>/\<close> is Python's true
  division; numbers that the source computes with it are rationals here, so the
  arithmetic is exact (the rounding of binary floating point is not modelled). A
  \<open>clip\<close> records the arguments the source gives to \<open>TextClip\<close>, \<open>set_start\<close>,
  \<open>set_duration\<close> and \<open>set_position\<close>; a clip has no position until
  \<open>set_position\<close> gives it one. The loop appends one clip per cue.
\<close>

record subrip_time =
  hours :: int
  minutes :: int
  seconds :: int
  milliseconds :: int

record subtitle =
  sub_start :: subrip_time
  sub_end :: subrip_time
  sub_text :: string

record clip =
  clip_text :: string
  clip_fontsize :: int
  clip_font :: string
  clip_color :: string
  clip_bg_color :: string
  clip_width :: rat
  clip_method :: string
  clip_start :: rat
  clip_duration :: rat
  clip_position :: "(string \<times> rat) option"

definition time_to_seconds :: "subrip_time \<Rightarrow> rat" where
  "time_to_seconds time_obj =
     of_int (hours time_obj * 3600 + minutes time_obj * 60 + seconds time_obj)
     + of_int (milliseconds time_obj) / 1000"

fun create_subtitle_clips_loop ::
  "subtitle list \<Rightarrow> int \<times> int \<Rightarrow> int \<Rightarrow> string \<Rightarrow> string \<Rightarrow> clip list \<Rightarrow> clip list" where
  "create_subtitle_clips_loop [] videosize fontsize font color subtitle_clips = subtitle_clips"
| "create_subtitle_clips_loop (subtitle # rest) videosize fontsize font color subtitle_clips =
     (let video_width = fst videosize;
          video_height = snd videosize;
          start_time = time_to_seconds (sub_start subtitle);
          end_time = time_to_seconds (sub_end subtitle);
          duration = end_time - start_time;
          text_clip = \<lparr>clip_text = sub_text subtitle, clip_fontsize = fontsize,
                       clip_font = font, clip_color = color, clip_bg_color = ''black'',
                       clip_width = of_int (video_width * 3) / 4, clip_method = ''caption'',
                       clip_start = start_time, clip_duration = duration,
                       clip_position = None\<rparr>;
          subtitle_x_position = ''center'';
          subtitle_y_position = of_int (video_height * 4) / 5;
          text_position = (subtitle_x_position, subtitle_y_position)
      in create_subtitle_clips_loop rest videosize fontsize font color
           (subtitle_clips @ [text_clip\<lparr>clip_position := Some text_position\<rparr>]))"

definition create_subtitle_clips ::
  "subtitle list \<Rightarrow> int \<times> int \<Rightarrow> int \<Rightarrow> string \<Rightarrow> string \<Rightarrow> clip list" where
  "create_subtitle_clips subtitles videosize fontsize font color =
     create_subtitle_clips_loop subtitles videosize fontsize font color []"


subsection \<open>Exceptions, credentials and the trace of outside calls\<close>

text \<open>
  The source has no \<open>raise\<close> of its own: every exception comes out of a library
  call. \<open>exn\<close> names the exception classes the source's handlers tell apart; all of
  them are subclasses of \<open>Exception\<close>. A function that can let an exception escape
  returns \<open>exn + 'a\<close>, with \<open>Inl\<close> for the exception.

  \<open>creds\<close> holds what the source reads of a credentials object. An \<open>event\<close> is one
  call that leaves the program (a request, a sleep, a print, a file written); each
  function returns the events it caused, in order. A print is recorded with the fixed
  part of its message.
\<close>

datatype exn = RequestException | UnicodeDecodeError | TypeError | RefreshError | OtherException

record creds =
  valid :: bool
  expired :: bool
  refresh_token :: bool

datatype event =
    Post string
  | Sleep nat
  | Print string
  | Mkdir string
  | SpeechCreate string string
  | StreamToFile string
  | ImagesGenerate string
  | WriteFile string string
  | Transcribe string
  | LoadToken string
  | Refresh
  | Login
  | SaveToken string creds
  | Build string
  | AudioFileClip string
  | CreateVideo string string string
  | VideoFileClip string
  | PysrtOpen string
  | OpenSrtWithEncoding string string
  | WriteVideofile string "clip list"
  | VideosInsert string string string "string list" string string
  | NextChunk
  | WriteLines "string list"

definition emit :: "event list \<Rightarrow> 'a \<times> event list \<Rightarrow> 'a \<times> event list" where
  "emit evs r = (fst r, evs @ snd r)"

fun is_post :: "event \<Rightarrow> bool" where
  "is_post (Post p) = True"
| "is_post e = False"

fun sleeps :: "event list \<Rightarrow> nat list" where
  "sleeps [] = []"
| "sleeps (Sleep d # es) = d # sleeps es"
| "sleeps (e # es) = sleeps es"

subsection \<open>generate_book_summary (lines 19-59)\<close>

text \<open>
  \<open>post k\<close> is what the request of the attempt numbered \<open>k\<close> does: \<open>requests.post\<close>
  raises, or it returns a response with a status code and a body; the body is what
  \<open>response.json()['choices'][0]['message']['content']\<close> evaluates to, a string or an
  exception. The handler catches \<open>RequestException\<close> only. The function returns a
  string on success and, after the loop, a pair of a message and an empty list.
  \<open>max_retries\<close> is a Python int; \<open>delay\<close> is a number of seconds that is not
  negative (the callers leave both at their defaults, 3 and 2).
\<close>

datatype http = Raises exn | Response int "exn + string"

datatype summary = Str string | Tuple string "string list"

definition prompt_of :: "string \<Rightarrow> string" where
  "prompt_of book_title =
     ''Summarize the book, make the summary around 525 words and keep the words and text simple ''
     @ [CHR 0x27] @ book_title @ [CHR 0x27] @ ''.''"

function generate_book_summary_loop ::
  "(nat \<Rightarrow> http) \<Rightarrow> string \<Rightarrow> int \<Rightarrow> nat \<Rightarrow> nat \<Rightarrow> (exn + summary) \<times> event list" where
  "generate_book_summary_loop post prompt max_retries delay attempts =
     (if int attempts < max_retries then
        (case post attempts of
           Response status_code body \<Rightarrow>
             if status_code = 200 then
               (case body of
                  Inr full_summary \<Rightarrow> (Inr (Str full_summary), [Post prompt])
                | Inl e \<Rightarrow>
                    if e = RequestException
                    then emit [Post prompt, Sleep delay]
                           (generate_book_summary_loop post prompt max_retries delay (Suc attempts))
                    else (Inl e, [Post prompt]))
             else emit [Post prompt, Sleep delay]
                    (generate_book_summary_loop post prompt max_retries delay (Suc attempts))
         | Raises e \<Rightarrow>
             if e = RequestException
             then emit [Post prompt, Sleep delay]
                    (generate_book_summary_loop post prompt max_retries delay (Suc attempts))
             else (Inl e, [Post prompt]))
      else (Inr (Tuple ''Max retries reached. Unable to generate summary.'' []), []))"
  by pat_completeness auto
termination
  by (relation "measure (\<lambda>(post, prompt, max_retries, delay, attempts). nat (max_retries - int attempts))")
    auto

definition generate_book_summary ::
  "(nat \<Rightarrow> http) \<Rightarrow> string \<Rightarrow> int \<Rightarrow> nat \<Rightarrow> (exn + summary) \<times> event list" where
  "generate_book_summary post book_title max_retries delay =
     generate_book_summary_loop post (prompt_of book_title) max_retries delay 0"

text \<open>
  An attempt fails in the way the loop retries when the transport raises
  \<open>RequestException\<close> or the response is not a success; it succeeds with \<open>s\<close> when the
  status is 200 and the body holds the string \<open>s\<close>.
\<close>

fun failed :: "http \<Rightarrow> bool" where
  "failed (Raises e) = (e = RequestException)"
| "failed (Response status_code body) = (status_code \<noteq> 200)"

subsection \<open>text_to_speech (lines 61-109) and generate_book_thumbnail (lines 111-150)\<close>

text \<open>
  Both functions return nothing and let no exception of the retried calls escape; what
  they leave behind is a file. \<open>speech k\<close> tells whether the synthesis and the
  streaming to the file of attempt \<open>k\<close> succeed; \<open>download k\<close> is the downloaded picture
  of attempt \<open>k\<close>, or \<open>None\<close> when a step of the attempt raises. \<open>choice\<close> stands
  for \<open>random.choice\<close>.
\<close>

definition voices :: "string list" where
  "voices = [''alloy'', ''echo'', ''fable'', ''onyx'', ''nova'', ''shimmer'']"

function text_to_speech_loop ::
  "(nat \<Rightarrow> bool) \<Rightarrow> string \<Rightarrow> string \<Rightarrow> string \<Rightarrow> int \<Rightarrow> nat \<Rightarrow> nat \<Rightarrow> event list" where
  "text_to_speech_loop speech selected_voice txt speech_file_path max_retries delay attempts =
     (if int attempts < max_retries then
        (if speech attempts
         then [SpeechCreate selected_voice txt, StreamToFile speech_file_path,
               Print ''Audio saved'']
         else [SpeechCreate selected_voice txt, Print ''Attempt: Error occurred'', Sleep delay]
              @ text_to_speech_loop speech selected_voice txt speech_file_path max_retries delay
                  (Suc attempts))
      else [Print ''Max retries reached. Unable to generate speech.''])"
  by pat_completeness auto
termination
  by (relation "measure (\<lambda>(speech, selected_voice, txt, speech_file_path, max_retries, delay, attempts).
        nat (max_retries - int attempts))") auto

definition text_to_speech ::
  "bool \<Rightarrow> nat \<Rightarrow> (nat \<Rightarrow> bool) \<Rightarrow> string \<Rightarrow> string \<Rightarrow> string \<Rightarrow> int \<Rightarrow> nat \<Rightarrow> event list" where
  "text_to_speech mkdir_ok choice speech parent txt book_title max_retries delay =
     (let safe_book_title = text_to_speech_safe_book_title book_title;
          directory_path = joinpath parent (''Videos/'' @ safe_book_title)
      in if \<not> mkdir_ok then [Mkdir directory_path, Print ''Error creating directory'']
         else
           let speech_file_path = joinpath directory_path ''voice.mp3'';
               selected_voice = voices ! (choice mod length voices)
           in Mkdir directory_path
              # text_to_speech_loop speech selected_voice txt speech_file_path max_retries delay 0)"

definition thumbnail_prompt :: "string \<Rightarrow> string" where
  "thumbnail_prompt book_title =
     ''Create a thumbnail for my YouTube video. The video is a book summary about the book ''
     @ [CHR 0x27] @ book_title @ [CHR 0x27] @ ''.''"

function generate_book_thumbnail_loop ::
  "(nat \<Rightarrow> string option) \<Rightarrow> string \<Rightarrow> string \<Rightarrow> int \<Rightarrow> nat \<Rightarrow> nat \<Rightarrow> event list" where
  "generate_book_thumbnail_loop download parent book_title max_retries delay attempts =
     (if int attempts < max_retries then
        (case download attempts of
           Some content \<Rightarrow>
             [ImagesGenerate (thumbnail_prompt book_title),
              WriteFile (generate_book_thumbnail_image_path parent book_title) content,
              Print ''Thumbnail saved'']
         | None \<Rightarrow>
             [ImagesGenerate (thumbnail_prompt book_title), Print ''Attempt: Error occurred'',
              Sleep delay]
             @ generate_book_thumbnail_loop download parent book_title max_retries delay
                 (Suc attempts))
      else [Print ''Max retries reached. Unable to generate thumbnail.''])"
  by pat_completeness auto
termination
  by (relation "measure (\<lambda>(download, parent, book_title, max_retries, delay, attempts).
        nat (max_retries - int attempts))") auto

definition generate_book_thumbnail ::
  "(nat \<Rightarrow> string option) \<Rightarrow> string \<Rightarrow> string \<Rightarrow> int \<Rightarrow> nat \<Rightarrow> event list" where
  "generate_book_thumbnail download parent book_title max_retries delay =
     generate_book_thumbnail_loop download parent book_title max_retries delay 0"

subsection \<open>generate_subtitles (lines 152-189)\<close>

text \<open>
  \<open>transcribe k\<close> is the transcription that attempt \<open>k\<close> receives, or \<open>None\<close> when
  opening the audio file or the request raises; \<open>can_write k path\<close> tells whether
  attempt \<open>k\<close> can open \<open>path\<close> for writing and write to it. The handler catches
  every \<open>Exception\<close>, so the function returns a path or \<open>None\<close>.
\<close>

function generate_subtitles_loop ::
  "(nat \<Rightarrow> string option) \<Rightarrow> (nat \<Rightarrow> string \<Rightarrow> bool) \<Rightarrow> string \<Rightarrow> int \<Rightarrow> nat \<Rightarrow> nat
   \<Rightarrow> string option \<times> event list" where
  "generate_subtitles_loop transcribe can_write audio_file_path max_retries delay attempts =
     (if int attempts < max_retries then
        (case transcribe attempts of
           Some srt_content \<Rightarrow>
             (let srt_file_path = replace ''.mp3'' ''.srt'' audio_file_path
              in if can_write attempts srt_file_path
                 then (Some srt_file_path,
                       [Transcribe audio_file_path, WriteFile srt_file_path srt_content])
                 else emit [Transcribe audio_file_path, Print ''Attempt: Error occurred'',
                            Sleep delay]
                        (generate_subtitles_loop transcribe can_write audio_file_path
                           max_retries delay (Suc attempts)))
         | None \<Rightarrow>
             emit [Transcribe audio_file_path, Print ''Attempt: Error occurred'', Sleep delay]
               (generate_subtitles_loop transcribe can_write audio_file_path
                  max_retries delay (Suc attempts)))
      else (None, [Print ''Max retries reached. Unable to generate subtitles.'']))"
  by pat_completeness auto
termination
  by (relation "measure (\<lambda>(transcribe, can_write, audio_file_path, max_retries, delay, attempts).
        nat (max_retries - int attempts))") auto

definition generate_subtitles ::
  "(nat \<Rightarrow> string option) \<Rightarrow> (nat \<Rightarrow> string \<Rightarrow> bool) \<Rightarrow> string \<Rightarrow> int \<Rightarrow> nat
   \<Rightarrow> string option \<times> event list" where
  "generate_subtitles transcribe can_write audio_file_path max_retries delay =
     generate_subtitles_loop transcribe can_write audio_file_path max_retries delay 0"

subsection \<open>service_youtube (lines 212-236) and service_google_drive (lines 382-409)\<close>

text \<open>
  \<open>auth\<close> is what the credential code meets outside the program: the token file
  (absent, unreadable, or holding credentials), what \<open>creds.refresh\<close> does (the
  refreshed credentials or an exception), what the interactive login does, and whether
  \<open>build\<close> raises. A credentials object is true in a condition, so \<open>not creds\<close>
  holds for \<open>None\<close> only. Both functions return the credentials the service is built
  with.
\<close>

record auth =
  token_file :: "(exn + creds) option"
  refresh_result :: "exn + creds"
  login_result :: "exn + creds"
  build_result :: "exn option"

definition load_token :: "auth \<Rightarrow> string \<Rightarrow> (exn + creds option) \<times> event list" where
  "load_token a token_file_name =
     (case token_file a of
        None \<Rightarrow> (Inr None, [])
      | Some (Inl e) \<Rightarrow> (Inl e, [LoadToken token_file_name])
      | Some (Inr c) \<Rightarrow> (Inr (Some c), [LoadToken token_file_name]))"

definition build :: "auth \<Rightarrow> string \<Rightarrow> creds \<Rightarrow> event list \<Rightarrow> (exn + creds) \<times> event list" where
  "build a service_name c tr =
     (case build_result a of
        Some e \<Rightarrow> (Inl e, tr @ [Build service_name])
      | None \<Rightarrow> (Inr c, tr @ [Build service_name]))"

definition service_youtube :: "auth \<Rightarrow> (exn + creds) \<times> event list" where
  "service_youtube a =
     (let token_file_name = ''youtube_token.pickle''
      in case load_token a token_file_name of
           (Inl e, t0) \<Rightarrow> (Inl e, t0)
         | (Inr creds, t0) \<Rightarrow>
             if creds = None \<or> \<not> valid (the creds) then
               (case (if creds \<noteq> None \<and> expired (the creds) \<and> refresh_token (the creds)
                      then (case refresh_result a of
                              Inl e \<Rightarrow> (Inl e, [Refresh])
                            | Inr c \<Rightarrow> (Inr c, [Refresh]))
                      else (case login_result a of
                              Inl e \<Rightarrow> (Inl e, [Login])
                            | Inr c \<Rightarrow> (Inr c, [Login])))
                of (Inl e, t1) \<Rightarrow> (Inl e, t0 @ t1)
                 | (Inr c, t1) \<Rightarrow>
                     build a ''youtube'' c (t0 @ t1 @ [SaveToken token_file_name c]))
             else build a ''youtube'' (the creds) t0)"

definition service_google_drive :: "auth \<Rightarrow> (exn + creds) \<times> event list" where
  "service_google_drive a =
     (let token_file_name = ''token.json''
      in case load_token a token_file_name of
           (Inl e, t0) \<Rightarrow> (Inl e, t0)
         | (Inr creds, t0) \<Rightarrow>
             if creds = None \<or> \<not> valid (the creds) then
               (let (creds1, t1) =
                      (if creds \<noteq> None \<and> expired (the creds) \<and> refresh_token (the creds)
                       then (case refresh_result a of
                               Inl e \<Rightarrow>
                                 (None, [Refresh, Print ''Error refreshing access token''])
                             | Inr c \<Rightarrow> (Some c, [Refresh]))
                       else (creds, []))
                in case (if creds1 = None
                         then (case login_result a of
                                 Inl e \<Rightarrow> (Inl e, [Login])
                               | Inr c \<Rightarrow> (Inr c, [Login]))
                         else (Inr (the creds1), []))
                   of (Inl e, t2) \<Rightarrow> (Inl e, t0 @ t1 @ t2)
                    | (Inr c, t2) \<Rightarrow>
                        build a ''drive'' c (t0 @ t1 @ t2 @ [SaveToken token_file_name c]))
             else build a ''drive'' (the creds) t0)"

subsection \<open>upload_video_to_youtube (lines 240-288)\<close>

text \<open>
  \<open>next_chunk k\<close> is what the call numbered \<open>k\<close> of \<open>insert_request.next_chunk()\<close>
  does: it raises, or it returns a status (true in a condition or not) and a response
  (\<open>None\<close> until the upload is complete). The source loops while the response is
  \<open>None\<close> and has no bound, so the loop is a partial function: \<open>None\<close> below means
  that it never returns.
\<close>

datatype chunk = ChunkRaises exn | Chunk bool "string option"

definition upload_keywords :: "string \<Rightarrow> string list" where
  "upload_keywords title =
     [''Book Summary'', ''Self Help'', ''Personal Growth'', ''Motivation'',
      ''Life Improvement'', ''Success'', ''Mindfulness'', ''Happiness'',
      ''Personal Development'', ''Inspiration'', ''Productivity'', ''Well-being'',
      ''Life Hacks'', ''Mental Health'', ''Goal Setting'', ''Self-Care'',
      ''Positive Thinking'', ''Life Coaching'', ''Self-Improvement'', ''Empowerment'',
      title]"

partial_function (option) upload_loop ::
  "(nat \<Rightarrow> chunk) \<Rightarrow> nat \<Rightarrow> event list \<Rightarrow> ((exn + unit) \<times> event list) option" where
  [code]: "upload_loop next_chunk k tr =
     (case next_chunk k of
        ChunkRaises e \<Rightarrow> Some (Inl e, tr @ [NextChunk])
      | Chunk status response \<Rightarrow>
          (case response of
             None \<Rightarrow>
               upload_loop next_chunk (Suc k)
                 (tr @ NextChunk # (if status then [Print ''Uploaded''] else []))
           | Some r \<Rightarrow>
               Some (Inr (),
                     tr @ NextChunk # (if status then [Print ''Uploaded''] else [])
                     @ [Print ''Video ID was successfully uploaded.''])))"

definition upload_video_to_youtube ::
  "exn option \<Rightarrow> (nat \<Rightarrow> chunk) \<Rightarrow> string \<Rightarrow> string \<Rightarrow> string \<Rightarrow> string \<Rightarrow> string
   \<Rightarrow> ((exn + unit) \<times> event list) option" where
  "upload_video_to_youtube insert_request next_chunk file_path title description category_id
     privacy_status =
     (let request = VideosInsert file_path title description (upload_keywords title) category_id
                      privacy_status
      in case insert_request of
           Some e \<Rightarrow> Some (Inl e, [request])
         | None \<Rightarrow> upload_loop next_chunk 0 [request])"

subsection \<open>create_video_from_image_and_audio (lines 438-444), open_srt_with_encoding (lines 377-380)\<close>

text \<open>
  Rendering is the library's work: \<open>rendering\<close> says whether it raises.
  \<open>read_text path encoding errors\<close> is the text that \<open>open(path, 'r', encoding=...,
  errors=...)\<close> and \<open>read()\<close> deliver, \<open>from_string\<close> is the subtitle parser.
\<close>

definition create_video_from_image_and_audio ::
  "exn option \<Rightarrow> string \<Rightarrow> string \<Rightarrow> string \<Rightarrow> rat \<Rightarrow> (exn + unit) \<times> event list" where
  "create_video_from_image_and_audio rendering image_path audio_path output_path duration =
     (case rendering of
        Some e \<Rightarrow> (Inl e, [CreateVideo image_path audio_path output_path])
      | None \<Rightarrow> (Inr (), [CreateVideo image_path audio_path output_path]))"

definition open_srt_with_encoding ::
  "(string \<Rightarrow> string \<Rightarrow> string \<Rightarrow> exn + string) \<Rightarrow> (string \<Rightarrow> exn + subtitle list)
   \<Rightarrow> string \<Rightarrow> string \<Rightarrow> exn + subtitle list" where
  "open_srt_with_encoding read_text from_string file_path encoding =
     (case read_text file_path encoding ''ignore'' of
        Inl e \<Rightarrow> Inl e
      | Inr content \<Rightarrow> from_string content)"

subsection \<open>process_books (lines 291-374)\<close>

text \<open>
  The work-list file is its text as the file object delivers and takes it: a string
  whose lines end in the newline character (decoding and the translation of other line
  endings are the file object's and are not modelled). \<open>readlines\<close> cuts the text
  after every newline and keeps the newline in the line; \<open>writelines\<close> followed by
  \<open>truncate\<close> leaves the concatenation of the lines. \<open>split\<close> is \<open>str.split(sep)\<close>
  for a separator of one character, \<open>str_of_path\<close> is \<open>str\<close> of a path or \<open>None\<close>.
\<close>

fun readlines :: "string \<Rightarrow> string list" where
  "readlines [] = []"
| "readlines (c # cs) =
     (if c = newline then [c] # readlines cs
      else (case readlines cs of
              [] \<Rightarrow> [[c]]
            | l # ls \<Rightarrow> (c # l) # ls))"

fun split :: "char \<Rightarrow> string \<Rightarrow> string list" where
  "split sep [] = [[]]"
| "split sep (c # cs) =
     (if c = sep then [] # split sep cs
      else (case split sep cs of
              [] \<Rightarrow> [[c]]
            | l # ls \<Rightarrow> (c # l) # ls))"

definition str_of_path :: "string option \<Rightarrow> string" where
  "str_of_path p = (case p of None \<Rightarrow> ''None'' | Some s \<Rightarrow> s)"

text \<open>
  \<open>world\<close> is everything outside the program that one run of \<open>process_books\<close> meets:
  one field for each call that leaves the program. \<open>w_audio_file_clip\<close> is the duration
  that \<open>AudioFileClip\<close> measures, \<open>w_video_file_clip\<close> the size of the rendered video;
  \<open>w_write_videofile\<close> says whether drawing the caption layers, compositing them and
  writing the final video raises.
\<close>

record world =
  w_parent :: string
  w_auth :: auth
  w_post :: "nat \<Rightarrow> http"
  w_mkdir_ok :: bool
  w_choice :: nat
  w_speech :: "nat \<Rightarrow> bool"
  w_download :: "nat \<Rightarrow> string option"
  w_transcribe :: "nat \<Rightarrow> string option"
  w_can_write :: "nat \<Rightarrow> string \<Rightarrow> bool"
  w_audio_file_clip :: "string \<Rightarrow> exn + rat"
  w_rendering :: "exn option"
  w_video_file_clip :: "string \<Rightarrow> exn + int \<times> int"
  w_pysrt_open :: "string \<Rightarrow> exn + subtitle list"
  w_read_text :: "string \<Rightarrow> string \<Rightarrow> string \<Rightarrow> exn + string"
  w_from_string :: "string \<Rightarrow> exn + subtitle list"
  w_write_videofile :: "exn option"
  w_insert_request :: "exn option"
  w_next_chunk :: "nat \<Rightarrow> chunk"

text \<open>
  Lines 353-356: the subtitle file is parsed with the default decoding; when that
  raises \<open>UnicodeDecodeError\<close> it is read again as windows-1252.
\<close>

definition parse_subtitles :: "world \<Rightarrow> string \<Rightarrow> (exn + subtitle list) \<times> event list" where
  "parse_subtitles w srt_path =
     (case w_pysrt_open w srt_path of
        Inr subtitles \<Rightarrow> (Inr subtitles, [PysrtOpen srt_path])
      | Inl e \<Rightarrow>
          if e = UnicodeDecodeError
          then (open_srt_with_encoding (w_read_text w) (w_from_string w) srt_path
                  ''windows-1252'',
                [PysrtOpen srt_path, OpenSrtWithEncoding srt_path ''windows-1252''])
          else (Inl e, [PysrtOpen srt_path]))"

text \<open>
  Lines 318-364: the steps for the title that the loop has reached. Adding the closing
  sentence to the summary is string concatenation; on the pair that
  \<open>generate_book_summary\<close> returns after its retries it raises \<open>TypeError\<close>.
\<close>

definition thanks :: string where
  "thanks = ''Thank you for watching! Please subscribe to the channel and feel free to leave any requests in the comments.''"

definition process_title :: "world \<Rightarrow> string \<Rightarrow> ((exn + unit) \<times> event list) option" where
  "process_title w book_title =
     (let (r_summary, t_summary) = generate_book_summary (w_post w) book_title 3 2;
          t1 = Print (''Processing: '' @ book_title) # t_summary
      in case r_summary of
           Inl e \<Rightarrow> Some (Inl e, t1)
         | Inr (Tuple msg l) \<Rightarrow> Some (Inl TypeError, t1 @ [Print msg])
         | Inr (Str summary) \<Rightarrow>
            (let full_summary = summary @ thanks;
                 t2 = t1 @ [Print summary]
                      @ text_to_speech (w_mkdir_ok w) (w_choice w) (w_speech w) (w_parent w)
                          full_summary book_title 3 2
                      @ generate_book_thumbnail (w_download w) (w_parent w) book_title 3 2;
                 safe_book_title = process_books_safe_book_title book_title;
                 directory_path = joinpath (w_parent w) (''Videos/'' @ safe_book_title);
                 image_path = joinpath directory_path ''image.png'';
                 audio_path = joinpath directory_path ''voice.mp3'';
                 (srt_path, t_srt) =
                   generate_subtitles (w_transcribe w) (w_can_write w) audio_path 3 2;
                 t3 = t2 @ t_srt @ [AudioFileClip audio_path]
             in case w_audio_file_clip w audio_path of
                  Inl e \<Rightarrow> Some (Inl e, t3)
                | Inr duration \<Rightarrow>
                   (let output_path =
                          joinpath directory_path (''Book_Summary_'' @ safe_book_title @ ''.mp4'');
                        output_video_path =
                          joinpath directory_path
                            (''Book_Summary_'' @ safe_book_title @ ''_subbed.mp4'');
                        video_title = ''Book Summary: '' @ book_title;
                        summary_lines = split newline full_summary;
                        video_description =
                          (if length summary_lines \<ge> 2
                           then summary_lines ! 0 @ [newline] @ summary_lines ! 1
                           else full_summary);
                        (r_video, t_video) =
                          create_video_from_image_and_audio (w_rendering w) image_path audio_path
                            output_path duration;
                        t4 = t3 @ t_video @ [VideoFileClip output_path]
                    in case r_video of
                         Inl e \<Rightarrow> Some (Inl e, t3 @ t_video)
                       | Inr u \<Rightarrow>
                          (case w_video_file_clip w output_path of
                             Inl e \<Rightarrow> Some (Inl e, t4)
                           | Inr video_size \<Rightarrow>
                              (let (r_subs, t_subs) = parse_subtitles w (str_of_path srt_path);
                                   t5 = t4 @ t_subs
                               in case r_subs of
                                    Inl e \<Rightarrow> Some (Inl e, t5)
                                  | Inr subtitles \<Rightarrow>
                                     (let subtitle_clips =
                                            create_subtitle_clips subtitles video_size 50
                                              ''Arial'' ''white'';
                                          t6 = t5 @ [WriteVideofile output_video_path
                                                       subtitle_clips]
                                      in case w_write_videofile w of
                                           Some e \<Rightarrow> Some (Inl e, t6)
                                         | None \<Rightarrow>
                                            (case upload_video_to_youtube (w_insert_request w)
                                                    (w_next_chunk w) output_video_path
                                                    video_title video_description ''22''
                                                    ''public'' of
                                               None \<Rightarrow> None
                                             | Some (r, t_up) \<Rightarrow> Some (r, t6 @ t_up))))))))"

text \<open>
  Lines 304-317: the loop walks the lines with the set \<open>processed_books\<close>. A line that
  starts with the marker adds its title to the set; a line whose stripped text is in
  the set is passed over; the first other line is the one the steps above run for.
  The flag \<open>book_processed\<close> is never set, and the loop is left by \<open>break\<close> after the
  steps. \<open>process_books_scan\<close> returns the index and the title of that line, or
  \<open>None\<close> when the loop runs to the end of the list.
\<close>

fun process_books_loop :: "string list \<Rightarrow> nat \<Rightarrow> string set \<Rightarrow> (nat \<times> string) option" where
  "process_books_loop [] i processed_books = None"
| "process_books_loop (line # rest) i processed_books =
     (if startswith line ''PROCESSED:''
      then process_books_loop rest (Suc i)
             (insert (strip (replace ''PROCESSED:'' '''' (strip line))) processed_books)
      else
        let book_title = strip line
        in if book_title \<in> processed_books
           then process_books_loop rest (Suc i) processed_books
           else Some (i, book_title))"

definition process_books_scan :: "string list \<Rightarrow> (nat \<times> string) option" where
  "process_books_scan lines = process_books_loop lines 0 {}"

text \<open>
  One run of \<open>process_books\<close> on the work-list \<open>content\<close>: the exception that escapes
  (if any), the work-list afterwards and the events. The file is written once, after
  the loop; when an exception escapes before, the file keeps its content.
\<close>

record outcome =
  raised :: "exn option"
  worklist :: string
  events :: "event list"

definition process_books :: "world \<Rightarrow> string \<Rightarrow> outcome option" where
  "process_books w content =
     (case service_youtube (w_auth w) of
        (Inl e, t0) \<Rightarrow> Some \<lparr>raised = Some e, worklist = content, events = t0\<rparr>
      | (Inr youtube_service, t0) \<Rightarrow>
          (let lines = readlines content
           in case process_books_scan lines of
                None \<Rightarrow>
                  Some \<lparr>raised = None, worklist = concat lines,
                        events = t0 @ [WriteLines lines]\<rparr>
              | Some (i, book_title) \<Rightarrow>
                  (case process_title w book_title of
                     None \<Rightarrow> None
                   | Some (Inl e, t1) \<Rightarrow>
                       Some \<lparr>raised = Some e, worklist = content, events = t0 @ t1\<rparr>
                   | Some (Inr u, t1) \<Rightarrow>
                       (let lines' = lines[i := ''PROCESSED: '' @ book_title @ [newline]]
                        in Some \<lparr>raised = None, worklist = concat lines',
                                 events = t0 @ t1 @ [WriteLines lines']\<rparr>))))"

text \<open>
  \<open>main\<close> (lines 446-455) calls \<open>process_books\<close> again and again on the same file;
  \<open>invocations ws content\<close> is the work-list after one run for each world of \<open>ws\<close>
  in turn, or \<open>None\<close> when one of the runs never returns.
\<close>

fun invocations :: "world list \<Rightarrow> string \<Rightarrow> string option" where
  "invocations [] content = Some content"
| "invocations (w # ws) content =
     (case process_books w content of
        None \<Rightarrow> None
      | Some out \<Rightarrow> invocations ws (worklist out))"

text \<open>The number of lines of a work-list that bear the marker.\<close>

definition marked_lines :: "string \<Rightarrow> nat" where
  "marked_lines content = length (filter (\<lambda>line. startswith line ''PROCESSED:'') (readlines content))"

subsection \<open>The work-list in the words of the specification\<close>

text \<open>
  A line is \<open>marked\<close> when it starts with the marker. The processed-set accumulated
  over some lines holds the titles of the marked lines among them. Line \<open>k\<close> is
  unprocessed when it is not marked and its stripped text is not in the set
  accumulated over the lines before it; the title \<open>T\<close> at line \<open>i\<close> is the first
  unprocessed one when no earlier line is unprocessed.
\<close>

definition marked :: "string \<Rightarrow> bool" where
  "marked line = startswith line ''PROCESSED:''"

definition marker_title :: "string \<Rightarrow> string" where
  "marker_title line = strip (replace ''PROCESSED:'' '''' (strip line))"

definition processed_titles :: "string list \<Rightarrow> string set" where
  "processed_titles ls = set (map marker_title (filter marked ls))"

definition unprocessed :: "string set \<Rightarrow> string list \<Rightarrow> nat \<Rightarrow> bool" where
  "unprocessed P ls k =
     (\<not> marked (ls ! k) \<and> strip (ls ! k) \<notin> P \<union> processed_titles (take k ls))"

definition first_unprocessed :: "string list \<Rightarrow> nat \<Rightarrow> string \<Rightarrow> bool" where
  "first_unprocessed ls i T =
     (i < length ls \<and> unprocessed {} ls i \<and> T = strip (ls ! i)
      \<and> list_all (\<lambda>k. \<not> unprocessed {} ls k) [0..<i])"

definition processed_line :: "string \<Rightarrow> string" where
  "processed_line T = ''PROCESSED: '' @ T @ [newline]"

text \<open>
  The lines that \<open>readlines\<close> yields: every line but the last ends in its only
  newline; the last one may also be a non-empty text with no newline.
\<close>

definition complete_line :: "string \<Rightarrow> bool" where
  "complete_line l = (l \<noteq> [] \<and> last l = newline \<and> newline \<notin> set (butlast l))"

fun wf_lines :: "string list \<Rightarrow> bool" where
  "wf_lines [] = True"
| "wf_lines [l] = (complete_line l \<or> (l \<noteq> [] \<and> newline \<notin> set l))"
| "wf_lines (l # ls) = (complete_line l \<and> wf_lines ls)"

subsection \<open>Concrete inputs\<close>

text \<open>Worlds and inputs at which the theorems below are evaluated.\<close>

definition flaky_post :: "nat \<Rightarrow> http" where
  "flaky_post k =
     (if k = 0 then Raises RequestException
      else if k = 1 then Response 503 (Inr ''busy'')
      else Response 200 (Inr ''A summary''))"

definition valid_creds :: creds where
  "valid_creds = \<lparr>valid = True, expired = False, refresh_token = True\<rparr>"

definition expired_creds :: creds where
  "expired_creds = \<lparr>valid = False, expired = True, refresh_token = True\<rparr>"

definition good_auth :: auth where
  "good_auth = \<lparr>token_file = Some (Inr valid_creds), refresh_result = Inr valid_creds,
                 login_result = Inr valid_creds, build_result = None\<rparr>"

definition cue_a :: subtitle where
  "cue_a = \<lparr>sub_start = \<lparr>hours = 0, minutes = 0, seconds = 0, milliseconds = 0\<rparr>,
             sub_end = \<lparr>hours = 0, minutes = 0, seconds = 2, milliseconds = 0\<rparr>,
             sub_text = ''a''\<rparr>"

definition cue_b :: subtitle where
  "cue_b = \<lparr>sub_start = \<lparr>hours = 0, minutes = 0, seconds = 2, milliseconds = 0\<rparr>,
             sub_end = \<lparr>hours = 0, minutes = 0, seconds = 5, milliseconds = 0\<rparr>,
             sub_text = ''b''\<rparr>"

definition good_world :: world where
  "good_world =
     \<lparr>w_parent = ''/app'', w_auth = good_auth,
      w_post = (\<lambda>k. Response 200 (Inr ''A summary.'')),
      w_mkdir_ok = True, w_choice = 4, w_speech = (\<lambda>k. True),
      w_download = (\<lambda>k. Some ''png''), w_transcribe = (\<lambda>k. Some ''srt''),
      w_can_write = (\<lambda>k p. True), w_audio_file_clip = (\<lambda>p. Inr 5),
      w_rendering = None, w_video_file_clip = (\<lambda>p. Inr (1792, 1024)),
      w_pysrt_open = (\<lambda>p. Inr [cue_a, cue_b]), w_read_text = (\<lambda>p e r. Inr ''''),
      w_from_string = (\<lambda>s. Inr []), w_write_videofile = None, w_insert_request = None,
      w_next_chunk = (\<lambda>k. Chunk True (Some ''id''))\<rparr>"

definition books_txt :: string where
  "books_txt = ''PROCESSED: Emma'' @ [newline] @ ''Emma'' @ [newline] @ ''Dune'' @ [newline]
               @ ''Ivanhoe''"

definition done_txt :: string where
  "done_txt = ''PROCESSED: Emma'' @ [newline] @ ''Emma'' @ [newline] @ ''PROCESSED: Dune''
              @ [newline]"

definition exhausted_world :: world where
  "exhausted_world = good_world\<lparr>w_post := (\<lambda>k. Response 503 (Inr ''busy''))\<rparr>"

definition stale_auth :: auth where
  "stale_auth = \<lparr>token_file = Some (Inr expired_creds), refresh_result = Inl RefreshError,
                  login_result = Inr valid_creds, build_result = None\<rparr>"

subsection \<open>Facts about the string functions\<close>

lemma replace_char_by_char:
  "replace [a] [b] s = map (\<lambda>c. if c = a then b else c) s"
  by (induction s) auto

lemma replace_char_by_nothing:
  "replace [a] [] s = filter (\<lambda>c. c \<noteq> a) s"
  by (induction s) auto

lemma safe_book_title_is_slug_spec:
  "process_books_safe_book_title t = slug_spec t"
  by (simp add: process_books_safe_book_title_def slug_spec_def lower_def
      replace_char_by_char replace_char_by_nothing conj_commute)

subsection \<open>The retry loop of generate_book_summary\<close>

declare generate_book_summary_loop.simps [simp del]

lemma emit_simps [simp]: "fst (emit evs r) = fst r" "snd (emit evs r) = evs @ snd r"
  by (simp_all add: emit_def)

lemma loop_done:
  "\<not> int a < m \<Longrightarrow> generate_book_summary_loop post p m d a =
     (Inr (Tuple ''Max retries reached. Unable to generate summary.'' []), [])"
  by (subst generate_book_summary_loop.simps) simp

lemma loop_retry:
  "int a < m \<Longrightarrow> failed (post a) \<Longrightarrow> generate_book_summary_loop post p m d a =
     emit [Post p, Sleep d] (generate_book_summary_loop post p m d (Suc a))"
  by (subst generate_book_summary_loop.simps) (cases "post a"; simp)

lemma loop_return:
  "int a < m \<Longrightarrow> post a = Response 200 (Inr s) \<Longrightarrow>
   generate_book_summary_loop post p m d a = (Inr (Str s), [Post p])"
  by (subst generate_book_summary_loop.simps) simp

lemma loop_posts:
  "int (length (filter is_post (snd (generate_book_summary_loop post p m d a)))) \<le> max 0 (m - int a)"
proof (induction "nat (m - int a)" arbitrary: a)
  case 0
  then have "\<not> int a < m" by simp
  then show ?case by (simp add: loop_done)
next
  case (Suc n)
  then have lt: "int a < m" and n: "n = nat (m - int (Suc a))" by simp_all
  from Suc.hyps(1) [OF n] lt show ?case
    by (subst generate_book_summary_loop.simps)
      (auto split: http.splits sum.splits)
qed

lemma loop_sleeps:
  "set (sleeps (snd (generate_book_summary_loop post p m d a))) \<subseteq> {d}"
proof (induction "nat (m - int a)" arbitrary: a)
  case 0
  then have "\<not> int a < m" by simp
  then show ?case by (simp add: loop_done)
next
  case (Suc n)
  then have lt: "int a < m" and n: "n = nat (m - int (Suc a))" by simp_all
  from Suc.hyps(1) [OF n] lt show ?case
    by (subst generate_book_summary_loop.simps)
      (auto split: http.splits sum.splits)
qed

lemma loop_exhausted:
  "(\<forall>k. a \<le> k \<longrightarrow> int k < m \<longrightarrow> failed (post k)) \<Longrightarrow>
   generate_book_summary_loop post p m d a =
     (Inr (Tuple ''Max retries reached. Unable to generate summary.'' []),
      concat (replicate (nat (m - int a)) [Post p, Sleep d]))"
proof (induction "nat (m - int a)" arbitrary: a)
  case 0
  then have "\<not> int a < m" by simp
  with 0 show ?case by (simp add: loop_done)
next
  case (Suc n)
  then have lt: "int a < m" and n: "n = nat (m - int (Suc a))" by simp_all
  have f: "failed (post a)" using Suc.prems lt by simp
  have rest: "\<forall>k. Suc a \<le> k \<longrightarrow> int k < m \<longrightarrow> failed (post k)"
    using Suc.prems by simp
  have step: "nat (m - int a) = Suc (nat (m - int (Suc a)))" using lt by simp
  show ?case
    using Suc.hyps(1) [OF n rest]
    by (simp add: loop_retry [of a m post, OF lt f] emit_def step)
qed

lemma loop_first_success:
  "a \<le> k \<Longrightarrow> int k < m \<Longrightarrow> (\<forall>j. a \<le> j \<longrightarrow> j < k \<longrightarrow> failed (post j)) \<Longrightarrow>
   post k = Response 200 (Inr s) \<Longrightarrow>
   generate_book_summary_loop post p m d a =
     (Inr (Str s), concat (replicate (k - a) [Post p, Sleep d]) @ [Post p])"
proof (induction "k - a" arbitrary: a)
  case 0
  then have "a = k" by simp
  with 0 show ?case by (simp add: loop_return)
next
  case (Suc n)
  then have lt: "a < k" and n: "n = k - Suc a" by simp_all
  have am: "int a < m" using lt Suc.prems(2) by simp
  have f: "failed (post a)" using Suc.prems(3) lt by simp
  have rest: "\<forall>j. Suc a \<le> j \<longrightarrow> j < k \<longrightarrow> failed (post j)"
    using Suc.prems(3) by simp
  have le: "Suc a \<le> k" using lt by simp
  have step: "k - a = Suc (k - Suc a)" using lt by simp
  show ?case
    using Suc.hyps(1) [OF n le Suc.prems(2) rest Suc.prems(4)]
    by (simp add: loop_retry [of a m post, OF am f] emit_def step)
qed

subsection \<open>readlines\<close>

lemma concat_readlines: "concat (readlines s) = s"
  by (induction s) (auto split: list.splits)

lemma readlines_eq_Nil: "readlines s = [] \<longleftrightarrow> s = []"
  by (cases s) (auto split: list.splits)

lemma readlines_no_newline: "s \<noteq> [] \<Longrightarrow> newline \<notin> set s \<Longrightarrow> readlines s = [s]"
proof (induction s)
  case Nil
  then show ?case by simp
next
  case (Cons c s)
  show ?case
  proof (cases "s = []")
    case True
    with Cons.prems show ?thesis by simp
  next
    case False
    with Cons have "readlines s = [s]" by simp
    moreover have "c \<noteq> newline" using Cons.prems by auto
    ultimately show ?thesis by simp
  qed
qed

lemma readlines_complete:
  "complete_line l \<Longrightarrow> readlines (l @ rest) = l # readlines rest"
proof (induction l)
  case Nil
  then show ?case by (simp add: complete_line_def)
next
  case (Cons c l)
  show ?case
  proof (cases "l = []")
    case True
    with Cons.prems show ?thesis by (simp add: complete_line_def)
  next
    case False
    with Cons.prems have "complete_line l" and "c \<noteq> newline"
      by (auto simp: complete_line_def)
    with Cons.IH show ?thesis by simp
  qed
qed

lemma readlines_concat: "wf_lines ls \<Longrightarrow> readlines (concat ls) = ls"
proof (induction ls rule: wf_lines.induct)
  case 1
  then show ?case by simp
next
  case (2 l)
  then show ?case
    using readlines_complete [of l "[]"] by (auto simp: readlines_no_newline)
next
  case (3 l v va)
  then show ?case by (simp add: readlines_complete)
qed

lemma wf_lines_Cons: "complete_line l \<Longrightarrow> wf_lines ls \<Longrightarrow> wf_lines (l # ls)"
  by (cases ls) auto

lemma wf_lines_readlines: "wf_lines (readlines s)"
proof (induction s)
  case Nil
  then show ?case by simp
next
  case (Cons c s)
  show ?case
  proof (cases "c = newline")
    case True
    have "complete_line [newline]" by (simp add: complete_line_def)
    with True Cons.IH show ?thesis by (simp add: wf_lines_Cons)
  next
    case False
    show ?thesis
    proof (cases "readlines s")
      case Nil
      with False show ?thesis by simp
    next
      case (Cons l ls)
      with False Cons.IH show ?thesis
        by (cases ls) (auto simp: complete_line_def)
    qed
  qed
qed

lemma wf_lines_update:
  "wf_lines ls \<Longrightarrow> i < length ls \<Longrightarrow> complete_line new \<Longrightarrow> wf_lines (ls[i := new])"
proof (induction ls arbitrary: i rule: wf_lines.induct)
  case 1
  then show ?case by simp
next
  case (2 l)
  then show ?case by simp
next
  case (3 l v va)
  then show ?case by (cases i) (auto simp: wf_lines_Cons)
qed

lemma wf_lines_nth:
  "wf_lines ls \<Longrightarrow> i < length ls \<Longrightarrow>
   complete_line (ls ! i) \<or> (ls ! i \<noteq> [] \<and> newline \<notin> set (ls ! i))"
proof (induction ls arbitrary: i rule: wf_lines.induct)
  case 1
  then show ?case by simp
next
  case (2 l)
  then show ?case by simp
next
  case (3 l v va)
  then show ?case by (cases i) auto
qed


subsection \<open>strip and the marked line\<close>

lemma isspace_newline: "isspace newline"
  by (simp add: isspace_def newline_def)

lemma set_strip_subset: "set (strip s) \<subseteq> set s"
  by (auto simp: strip_def dest!: set_dropWhileD)

lemma strip_snoc_space:
  assumes "isspace c"
  shows "strip (b @ [c]) = strip b"
proof (cases "\<forall>x\<in>set b. isspace x")
  case True
  then have both: "dropWhile isspace (b @ [c]) = []" and one: "dropWhile isspace b = []"
    using assms by (auto simp: dropWhile_eq_Nil_conv)
  show ?thesis by (simp only: strip_def both one)
next
  case False
  then obtain x where "x \<in> set b" "\<not> isspace x" by blast
  then have "dropWhile isspace (b @ [c]) = dropWhile isspace b @ [c]"
    by (rule dropWhile_append1)
  with assms show ?thesis by (simp add: strip_def)
qed

lemma newline_notin_strip:
  assumes "complete_line l \<or> (l \<noteq> [] \<and> newline \<notin> set l)"
  shows "newline \<notin> set (strip l)"
proof (cases "complete_line l")
  case True
  then have l: "l = butlast l @ [newline]" and nb: "newline \<notin> set (butlast l)"
    by (auto simp: complete_line_def dest: append_butlast_last_id)
  have "strip l = strip (butlast l)"
    using strip_snoc_space [OF isspace_newline, of "butlast l"] l by simp
  with nb set_strip_subset [of "butlast l"] show ?thesis by auto
next
  case False
  with assms have "newline \<notin> set l" by simp
  with set_strip_subset [of l] show ?thesis by auto
qed

lemma complete_processed_line:
  "newline \<notin> set T \<Longrightarrow> complete_line (processed_line T)"
proof -
  assume T: "newline \<notin> set T"
  have b: "butlast (processed_line T) = ''PROCESSED: '' @ T"
    unfolding processed_line_def by (simp add: butlast_append)
  have "newline \<notin> set ''PROCESSED: ''" by (simp add: newline_def)
  with T b show ?thesis by (simp add: complete_line_def processed_line_def)
qed

lemma marked_processed_line: "marked (processed_line T)"
  by (simp add: marked_def startswith_def processed_line_def)

subsection \<open>The loop over the lines\<close>

lemma processed_titles_Cons:
  "processed_titles (l # ls) =
     (if marked l then insert (marker_title l) (processed_titles ls) else processed_titles ls)"
  by (simp add: processed_titles_def)

lemma unprocessed_0: "unprocessed P (l # ls) 0 = (\<not> marked l \<and> strip l \<notin> P)"
  by (simp add: unprocessed_def processed_titles_def)

lemma unprocessed_Suc:
  "unprocessed P (l # ls) (Suc k) =
     unprocessed (if marked l then insert (marker_title l) P else P) ls k"
  by (auto simp: unprocessed_def processed_titles_Cons)

lemma loop_skip:
  "\<not> unprocessed P (l # ls) 0 \<Longrightarrow>
   process_books_loop (l # ls) i P =
     process_books_loop ls (Suc i) (if marked l then insert (marker_title l) P else P)"
  by (auto simp: unprocessed_0 marked_def marker_title_def Let_def)

lemma loop_take:
  "unprocessed P (l # ls) 0 \<Longrightarrow> process_books_loop (l # ls) i P = Some (i, strip l)"
  by (auto simp: unprocessed_0 marked_def Let_def)

lemma loop_none:
  "(\<forall>k<length ls. \<not> unprocessed P ls k) \<Longrightarrow> process_books_loop ls i P = None"
proof (induction ls arbitrary: i P)
  case Nil
  then show ?case by simp
next
  case (Cons l ls)
  from Cons.prems have first: "\<not> unprocessed P (l # ls) 0" by auto
  have rest: "\<forall>k<length ls. \<not> unprocessed (if marked l then insert (marker_title l) P else P) ls k"
  proof (intro allI impI)
    fix k assume "k < length ls"
    then have "\<not> unprocessed P (l # ls) (Suc k)" using Cons.prems by auto
    then show "\<not> unprocessed (if marked l then insert (marker_title l) P else P) ls k"
      by (simp add: unprocessed_Suc)
  qed
  show ?case
    unfolding loop_skip [OF first] by (rule Cons.IH [OF rest])
qed

lemma loop_some:
  "k < length ls \<Longrightarrow> unprocessed P ls k \<Longrightarrow> (\<forall>m<k. \<not> unprocessed P ls m) \<Longrightarrow>
   process_books_loop ls i P = Some (i + k, strip (ls ! k))"
proof (induction ls arbitrary: i P k)
  case Nil
  then show ?case by simp
next
  case (Cons l ls)
  show ?case
  proof (cases k)
    case 0
    with Cons.prems show ?thesis using loop_take [of P l ls i] by simp
  next
    case (Suc k')
    from Cons.prems Suc have first: "\<not> unprocessed P (l # ls) 0" by auto
    let ?P = "if marked l then insert (marker_title l) P else P"
    have len: "k' < length ls" using Cons.prems Suc by simp
    have here: "unprocessed ?P ls k'"
      using Cons.prems(2) Suc by (simp add: unprocessed_Suc)
    have before: "\<forall>m<k'. \<not> unprocessed ?P ls m"
    proof (intro allI impI)
      fix m assume "m < k'"
      then have "\<not> unprocessed P (l # ls) (Suc m)" using Cons.prems(3) Suc by auto
      then show "\<not> unprocessed ?P ls m" by (simp add: unprocessed_Suc)
    qed
    show ?thesis
      unfolding loop_skip [OF first]
      using Cons.IH [OF len here before, of "Suc i"] Suc by simp
  qed
qed

lemma loop_cases:
  "(process_books_loop ls i P = None \<and> (\<forall>k<length ls. \<not> unprocessed P ls k))
   \<or> (\<exists>k<length ls. process_books_loop ls i P = Some (i + k, strip (ls ! k))
        \<and> unprocessed P ls k \<and> (\<forall>m<k. \<not> unprocessed P ls m))"
proof (cases "\<forall>k<length ls. \<not> unprocessed P ls k")
  case True
  then show ?thesis by (simp add: loop_none)
next
  case False
  then obtain k0 where k0: "k0 < length ls \<and> unprocessed P ls k0" by blast
  define k where "k = (LEAST k. k < length ls \<and> unprocessed P ls k)"
  have k: "k < length ls \<and> unprocessed P ls k"
    unfolding k_def using k0 by (rule LeastI)
  have before: "\<forall>m<k. \<not> unprocessed P ls m"
  proof (intro allI impI)
    fix m assume m: "m < k"
    then have "\<not> (m < length ls \<and> unprocessed P ls m)"
      unfolding k_def by (rule not_less_Least)
    moreover have "m < length ls" using m k by simp
    ultimately show "\<not> unprocessed P ls m" by simp
  qed
  from k before loop_some [of k ls P i] show ?thesis by blast
qed

lemma scan_first:
  "first_unprocessed ls i T \<Longrightarrow> process_books_scan ls = Some (i, T)"
  using loop_some [of i ls "{}" 0]
  by (auto simp: first_unprocessed_def process_books_scan_def list_all_iff)

lemma scan_Some:
  assumes "process_books_scan ls = Some (i, T)"
  shows "first_unprocessed ls i T"
  using loop_cases [of ls 0 "{}"] assms
  by (auto simp: first_unprocessed_def process_books_scan_def list_all_iff)


subsection \<open>One run of process_books\<close>

lemma process_books_cases:
  assumes "process_books w content = Some out"
  shows "(raised out \<noteq> None \<and> worklist out = content)
    \<or> (raised out = None \<and> process_books_scan (readlines content) = None
        \<and> worklist out = content)
    \<or> (raised out = None
        \<and> (\<exists>i T. process_books_scan (readlines content) = Some (i, T)
              \<and> worklist out = concat ((readlines content)[i := processed_line T])))"
  using assms
  by (auto simp: process_books_def Let_def concat_readlines processed_line_def
      split: prod.splits sum.splits option.splits)

lemma readlines_marked_update:
  assumes "first_unprocessed (readlines content) i T"
  shows "readlines (concat ((readlines content)[i := processed_line T]))
         = (readlines content)[i := processed_line T]"
proof -
  let ?ls = "readlines content"
  have i: "i < length ?ls" and T: "T = strip (?ls ! i)"
    using assms by (simp_all add: first_unprocessed_def)
  have "newline \<notin> set T"
    unfolding T using wf_lines_nth [OF wf_lines_readlines i] by (rule newline_notin_strip)
  then have "complete_line (processed_line T)" by (rule complete_processed_line)
  with wf_lines_readlines i have "wf_lines (?ls[i := processed_line T])"
    by (rule wf_lines_update)
  then show ?thesis by (rule readlines_concat)
qed

lemma process_books_lines:
  assumes "process_books w content = Some out"
  shows "readlines (worklist out) = readlines content
    \<or> (raised out = None
        \<and> (\<exists>i T. first_unprocessed (readlines content) i T
              \<and> readlines (worklist out) = (readlines content)[i := processed_line T]))"
proof -
  from process_books_cases [OF assms] show ?thesis
  proof (elim disjE conjE exE)
    fix i T
    assume none: "raised out = None"
      and scan: "process_books_scan (readlines content) = Some (i, T)"
      and wl: "worklist out = concat ((readlines content)[i := processed_line T])"
    from scan have first: "first_unprocessed (readlines content) i T" by (rule scan_Some)
    from readlines_marked_update [OF first] wl none first show ?thesis by auto
  qed simp_all
qed

lemma filter_update_le:
  "length (filter P (xs[i := y])) \<le> Suc (length (filter P xs))"
proof (induction xs arbitrary: i)
  case Nil
  then show ?case by simp
next
  case (Cons x xs)
  show ?case
  proof (cases i)
    case 0
    then show ?thesis by simp
  next
    case (Suc j)
    with Cons.IH [of j] show ?thesis by simp
  qed
qed

lemma first_unprocessed_not_marked:
  "first_unprocessed ls i T \<Longrightarrow> i < length ls \<and> \<not> marked (ls ! i)"
  by (simp add: first_unprocessed_def unprocessed_def)

lemma step_length:
  "process_books w content = Some out \<Longrightarrow>
   length (readlines (worklist out)) = length (readlines content)"
  using process_books_lines [of w content out] by auto

lemma step_marked_kept:
  assumes "process_books w content = Some out"
    and "j < length (readlines content)" and "marked (readlines content ! j)"
  shows "readlines (worklist out) ! j = readlines content ! j"
proof -
  from process_books_lines [OF assms(1)] show ?thesis
  proof (elim disjE conjE exE)
    fix i T
    assume first: "first_unprocessed (readlines content) i T"
      and upd: "readlines (worklist out) = (readlines content)[i := processed_line T]"
    from first_unprocessed_not_marked [OF first] assms(3) have "i \<noteq> j" by auto
    with upd show ?thesis by simp
  qed simp
qed

lemma step_count:
  assumes "process_books w content = Some out"
  shows "marked_lines (worklist out) \<le> Suc (marked_lines content)"
proof -
  from process_books_lines [OF assms] show ?thesis
  proof (elim disjE conjE exE)
    fix i T
    assume "readlines (worklist out) = (readlines content)[i := processed_line T]"
    then show ?thesis
      using filter_update_le [of marked "readlines content" i "processed_line T"]
      by (simp add: marked_lines_def marked_def [abs_def])
  next
    assume "readlines (worklist out) = readlines content"
    then show ?thesis by (simp add: marked_lines_def)
  qed
qed

lemma invocations_length:
  "invocations ws content = Some content' \<Longrightarrow>
   length (readlines content') = length (readlines content)"
proof (induction ws arbitrary: content)
  case Nil
  then show ?case by simp
next
  case (Cons w ws)
  then obtain out where out: "process_books w content = Some out"
    and rest: "invocations ws (worklist out) = Some content'"
    by (auto split: option.splits)
  from Cons.IH [OF rest] step_length [OF out] show ?case by simp
qed

lemma invocations_marked_kept:
  "invocations ws content = Some content' \<Longrightarrow> j < length (readlines content) \<Longrightarrow>
   marked (readlines content ! j) \<Longrightarrow> readlines content' ! j = readlines content ! j"
proof (induction ws arbitrary: content)
  case Nil
  then show ?case by simp
next
  case (Cons w ws)
  then obtain out where out: "process_books w content = Some out"
    and rest: "invocations ws (worklist out) = Some content'"
    by (auto split: option.splits)
  have same: "readlines (worklist out) ! j = readlines content ! j"
    using out Cons.prems(2,3) by (rule step_marked_kept)
  have j: "j < length (readlines (worklist out))"
    using step_length [OF out] Cons.prems(2) by simp
  have m: "marked (readlines (worklist out) ! j)" using same Cons.prems(3) by simp
  from Cons.IH [OF rest j m] same show ?case by simp
qed

lemma invocations_count:
  "invocations ws content = Some content' \<Longrightarrow>
   marked_lines content' \<le> marked_lines content + length ws"
proof (induction ws arbitrary: content)
  case Nil
  then show ?case by simp
next
  case (Cons w ws)
  then obtain out where out: "process_books w content = Some out"
    and rest: "invocations ws (worklist out) = Some content'"
    by (auto split: option.splits)
  from Cons.IH [OF rest] step_count [OF out] show ?case by simp
qed

lemma summary_first_try:
  "post 0 = Response 200 (Inr s) \<Longrightarrow>
   generate_book_summary post T 3 d = (Inr (Str s), [Post (prompt_of T)])"
  using loop_return [of 0 3 post s "prompt_of T" d]
  by (simp add: generate_book_summary_def)

lemma summary_exhausted:
  "(\<forall>k. int k < 3 \<longrightarrow> failed (post k)) \<Longrightarrow>
   fst (generate_book_summary post T 3 d)
     = Inr (Tuple ''Max retries reached. Unable to generate summary.'' [])"
  using loop_exhausted [of 0 3 post "prompt_of T" d]
  by (simp add: generate_book_summary_def)

lemma process_title_exhausted:
  assumes "\<forall>k. int k < 3 \<longrightarrow> failed (w_post w k)"
  shows "\<exists>tr. process_title w T = Some (Inl TypeError, tr)"
proof -
  obtain tr where "generate_book_summary (w_post w) T 3 2
      = (Inr (Tuple ''Max retries reached. Unable to generate summary.'' []), tr)"
    using summary_exhausted [of "w_post w" T 2, OF assms]
    by (cases "generate_book_summary (w_post w) T 3 2") simp
  then show ?thesis by (simp add: process_title_def)
qed

lemma upload_first_chunk:
  "next_chunk 0 = Chunk st (Some r) \<Longrightarrow>
   \<exists>tr. upload_video_to_youtube None next_chunk f t d c p = Some (Inr (), tr)"
  by (simp add: upload_video_to_youtube_def upload_loop.simps [of next_chunk 0])

lemma process_title_completes:
  assumes post: "w_post w 0 = Response 200 (Inr s)"
    and audio: "\<forall>p. \<exists>d. w_audio_file_clip w p = Inr d"
    and rendering: "w_rendering w = None"
    and video: "\<forall>p. \<exists>sz. w_video_file_clip w p = Inr sz"
    and srt: "\<forall>p. \<exists>subs. w_pysrt_open w p = Inr subs"
    and final: "w_write_videofile w = None"
    and request: "w_insert_request w = None"
    and chunk: "w_next_chunk w 0 = Chunk st (Some r)"
  shows "\<exists>tr. process_title w T = Some (Inr (), tr)"
proof -
  from audio obtain dur where dur: "\<And>p. w_audio_file_clip w p = Inr (dur p)" by metis
  from video obtain sz where sz: "\<And>p. w_video_file_clip w p = Inr (sz p)" by metis
  from srt obtain cues where cues: "\<And>p. w_pysrt_open w p = Inr (cues p)" by metis
  have parse: "parse_subtitles w p = (Inr (cues p), [PysrtOpen p])" for p
    by (simp add: parse_subtitles_def cues)
  have create: "create_video_from_image_and_audio None a b c e = (Inr (), [CreateVideo a b c])"
    for a b c e
    by (simp add: create_video_from_image_and_audio_def)
  obtain up where up: "\<And>f t d c p.
      upload_video_to_youtube None (w_next_chunk w) f t d c p = Some (Inr (), up f t d c p)"
    using upload_first_chunk [of "w_next_chunk w" st r, OF chunk] by metis
  show ?thesis
    unfolding process_title_def
    by (simp add: summary_first_try [of "w_post w" s, OF post] Let_def case_prod_beta
        dur sz parse create rendering final request up)
qed

lemma process_books_returns:
  "(\<forall>T. process_title w T \<noteq> None) \<Longrightarrow> \<exists>out. process_books w c = Some out"
proof -
  assume total: "\<forall>T. process_title w T \<noteq> None"
  show ?thesis
  proof (cases "service_youtube (w_auth w)")
    case (Pair r t0)
    show ?thesis
    proof (cases r)
      case (Inl e)
      with Pair show ?thesis by (simp add: process_books_def)
    next
      case (Inr svc)
      show ?thesis
      proof (cases "process_books_scan (readlines c)")
        case None
        with Pair Inr show ?thesis by (simp add: process_books_def Let_def)
      next
        case (Some sel)
        obtain i T where sel: "sel = (i, T)" by (cases sel)
        from total have "process_title w T \<noteq> None" by blast
        then obtain res where res: "process_title w T = Some res" by (cases "process_title w T") auto
        obtain q tr where q: "res = (q, tr)" by (cases res)
        from Pair Inr Some sel res q show ?thesis
          by (cases q) (simp_all add: process_books_def Let_def)
      qed
    qed
  qed
qed

lemma process_title_announces:
  "process_title w T = Some (r, tr) \<Longrightarrow> Print (''Processing: '' @ T) \<in> set tr"
  unfolding process_title_def Let_def
  by (auto split: prod.splits sum.splits summary.splits option.splits)

lemma process_books_success:
  assumes "first_unprocessed (readlines content) i T"
    and "process_books w content = Some out" and "raised out = None"
  shows "worklist out = concat ((readlines content)[i := processed_line T])
    \<and> Print (''Processing: '' @ T) \<in> set (events out)"
proof -
  have scan: "process_books_scan (readlines content) = Some (i, T)"
    using assms(1) by (rule scan_first)
  obtain r t0 where svc: "service_youtube (w_auth w) = (r, t0)"
    by (cases "service_youtube (w_auth w)")
  show ?thesis
  proof (cases r)
    case (Inl e)
    with svc assms(2,3) show ?thesis by (auto simp: process_books_def)
  next
    case (Inr c)
    show ?thesis
    proof (cases "process_title w T")
      case None
      with svc Inr scan assms(2) show ?thesis by (simp add: process_books_def Let_def)
    next
      case (Some res)
      obtain q tr where res: "res = (q, tr)" by (cases res)
      show ?thesis
      proof (cases q)
        case (Inl e)
        with svc Inr scan Some res assms(2,3) show ?thesis
          by (auto simp: process_books_def Let_def)
      next
        case (Inr u)
        have "Print (''Processing: '' @ T) \<in> set tr"
          using Some res by (auto dest: process_title_announces)
        with svc \<open>r = Inr c\<close> scan Some res Inr assms(2) show ?thesis
          by (auto simp: process_books_def Let_def processed_line_def)
      qed
    qed
  qed
qed

subsection \<open>The concrete worlds\<close>

lemma good_service: "service_youtube (w_auth good_world)
    = (Inr valid_creds, [LoadToken ''youtube_token.pickle'', Build ''youtube''])"
  by (simp add: good_world_def good_auth_def valid_creds_def service_youtube_def load_token_def
      build_def)

lemma exhausted_service: "service_youtube (w_auth exhausted_world)
    = (Inr valid_creds, [LoadToken ''youtube_token.pickle'', Build ''youtube''])"
  using good_service by (simp add: exhausted_world_def)

lemma good_world_completes: "\<exists>tr. process_title good_world T = Some (Inr (), tr)"
  by (rule process_title_completes [of good_world "''A summary.''" True "''id''"])
    (simp_all add: good_world_def)

lemma exhausted_world_raises: "\<exists>tr. process_title exhausted_world T = Some (Inl TypeError, tr)"
  by (rule process_title_exhausted) (simp add: exhausted_world_def good_world_def)

lemma readlines_books_txt:
  "readlines books_txt
     = [''PROCESSED: Emma'' @ [newline], ''Emma'' @ [newline], ''Dune'' @ [newline], ''Ivanhoe'']"
  by code_simp

lemma readlines_done_txt:
  "readlines done_txt
     = [''PROCESSED: Emma'' @ [newline], ''Emma'' @ [newline], ''PROCESSED: Dune'' @ [newline]]"
  by code_simp

lemma books_txt_first: "first_unprocessed (readlines books_txt) 2 ''Dune''"
  by code_simp

lemma invocations_return:
  "(\<forall>w\<in>set ws. \<forall>T. process_title w T \<noteq> None) \<Longrightarrow> \<exists>c'. invocations ws c = Some c'"
proof (induction ws arbitrary: c)
  case Nil
  then show ?case by simp
next
  case (Cons w ws)
  then have "\<forall>T. process_title w T \<noteq> None" by simp
  then obtain out where out: "process_books w c = Some out"
    using process_books_returns by blast
  from Cons.IH [of "worklist out"] Cons.prems obtain c' where
    "invocations ws (worklist out) = Some c'" by auto
  with out show ?case by simp
qed


subsection \<open>Caption layers\<close>


subsection \<open>generate_subtitles\<close>

declare generate_subtitles_loop.simps [simp del]

lemma replace_old_alone: "old \<noteq> [] \<Longrightarrow> replace old new old = new"
  by (cases old) simp_all

lemma replace_only_suffix:
  assumes "old \<noteq> []"
    and "\<forall>u v. stem @ old = u @ old @ v \<longrightarrow> u = stem"
  shows "replace old new (stem @ old) = stem @ new"
  using assms(2)
proof (induction stem)
  case Nil
  then show ?case using assms(1) by (simp add: replace_old_alone)
next
  case (Cons c cs)
  have no: "\<not> prefix old (c # cs @ old)"
  proof
    assume "prefix old (c # cs @ old)"
    then obtain v where "(c # cs) @ old = [] @ old @ v" by (auto simp: prefix_def)
    with Cons.prems have "[] = c # cs" by blast
    then show False by simp
  qed
  have rest: "\<forall>u v. cs @ old = u @ old @ v \<longrightarrow> u = cs"
  proof (intro allI impI)
    fix u v assume "cs @ old = u @ old @ v"
    then have "(c # cs) @ old = (c # u) @ old @ v" by simp
    with Cons.prems have "c # u = c # cs" by blast
    then show "u = cs" by simp
  qed
  from Cons.IH [OF rest] no assms(1) show ?case by simp
qed

lemma subtitles_first_try:
  "0 < max_retries \<Longrightarrow> transcribe 0 = Some srt \<Longrightarrow>
   can_write 0 (replace ''.mp3'' ''.srt'' p) \<Longrightarrow>
   generate_subtitles transcribe can_write p max_retries delay
     = (Some (replace ''.mp3'' ''.srt'' p),
        [Transcribe p, WriteFile (replace ''.mp3'' ''.srt'' p) srt])"
  unfolding generate_subtitles_def
  by (subst generate_subtitles_loop.simps) (simp add: Let_def)

lemma subtitles_loop_exhausted:
  "(\<forall>k. a \<le> k \<longrightarrow> int k < m \<longrightarrow>
      transcribe k = None \<or> \<not> can_write k (replace ''.mp3'' ''.srt'' p)) \<Longrightarrow>
   fst (generate_subtitles_loop transcribe can_write p m d a) = None"
proof (induction "nat (m - int a)" arbitrary: a)
  case 0
  then have "\<not> int a < m" by simp
  then show ?case by (subst generate_subtitles_loop.simps) simp
next
  case (Suc n)
  then have lt: "int a < m" and n: "n = nat (m - int (Suc a))" by simp_all
  have here: "transcribe a = None \<or> \<not> can_write a (replace ''.mp3'' ''.srt'' p)"
    using Suc.prems lt by simp
  have rest: "\<forall>k. Suc a \<le> k \<longrightarrow> int k < m \<longrightarrow>
      transcribe k = None \<or> \<not> can_write k (replace ''.mp3'' ''.srt'' p)"
    using Suc.prems by simp
  from Suc.hyps(1) [OF n rest] lt here show ?case
    by (subst generate_subtitles_loop.simps) (auto simp: emit_def Let_def split: option.splits)
qed

lemma generate_subtitles_exhausted:
  "(\<forall>k. int k < m \<longrightarrow>
      transcribe k = None \<or> \<not> can_write k (replace ''.mp3'' ''.srt'' p)) \<Longrightarrow>
   fst (generate_subtitles transcribe can_write p m d) = None"
  using subtitles_loop_exhausted [of 0 m transcribe can_write p d]
  by (simp add: generate_subtitles_def)

subsection \<open>The subtitle file and its fallback\<close>

lemma parse_subtitles_default:
  "w_pysrt_open w p = Inr subs \<Longrightarrow> parse_subtitles w p = (Inr subs, [PysrtOpen p])"
  by (simp add: parse_subtitles_def)

lemma parse_subtitles_fallback:
  "w_pysrt_open w p = Inl UnicodeDecodeError \<Longrightarrow>
   parse_subtitles w p =
     ((case w_read_text w p ''windows-1252'' ''ignore'' of
         Inl e \<Rightarrow> Inl e
       | Inr content \<Rightarrow> w_from_string w content),
      [PysrtOpen p, OpenSrtWithEncoding p ''windows-1252''])"
  by (simp add: parse_subtitles_def open_srt_with_encoding_def)

lemma parse_subtitles_other_error:
  "w_pysrt_open w p = Inl e \<Longrightarrow> e \<noteq> UnicodeDecodeError \<Longrightarrow>
   parse_subtitles w p = (Inl e, [PysrtOpen p])"
  by (simp add: parse_subtitles_def)

section \<open>Properties of the program\<close>



text \<open>
  C2. After one run of \<open>process_books\<close> for each world of \<open>ws\<close>, the work-list has
  at most \<open>length ws\<close> marked lines more than before, so at most that many when it
  started with none. A line that bears the marker keeps its text through all the runs
  and is never the line the loop selects. And when a further run selects a line and
  returns without an exception, that line bears the marker afterwards.
\<close>

theorem marker_is_idempotent:
  assumes "invocations ws content = Some content'"
  shows "marked_lines content' \<le> marked_lines content + length ws
    \<and> (marked_lines content = 0 \<longrightarrow> marked_lines content' \<le> length ws)
    \<and> length (readlines content') = length (readlines content)
    \<and> (\<forall>i<length (readlines content). marked (readlines content ! i) \<longrightarrow>
          marked (readlines content' ! i)
          \<and> readlines content' ! i = readlines content ! i
          \<and> (\<forall>T. process_books_scan (readlines content') \<noteq> Some (i, T)))
    \<and> (\<forall>w out i T. process_books w content' = Some out \<and> raised out = None
          \<and> process_books_scan (readlines content') = Some (i, T) \<longrightarrow>
          marked (readlines (worklist out) ! i))"
proof -
  have count: "marked_lines content' \<le> marked_lines content + length ws"
    using assms by (rule invocations_count)
  have len: "length (readlines content') = length (readlines content)"
    using assms by (rule invocations_length)
  have kept: "marked (readlines content' ! i) \<and> readlines content' ! i = readlines content ! i
      \<and> (\<forall>T. process_books_scan (readlines content') \<noteq> Some (i, T))"
    if i: "i < length (readlines content)" and m: "marked (readlines content ! i)" for i
  proof -
    have same: "readlines content' ! i = readlines content ! i"
      using assms i m by (rule invocations_marked_kept)
    have "process_books_scan (readlines content') \<noteq> Some (i, T)" for T
    proof
      assume "process_books_scan (readlines content') = Some (i, T)"
      then have "first_unprocessed (readlines content') i T" by (rule scan_Some)
      then have "\<not> marked (readlines content' ! i)"
        by (simp add: first_unprocessed_not_marked)
      with same m show False by simp
    qed
    with same m show ?thesis by simp
  qed
  have next_run: "marked (readlines (worklist out) ! i)"
    if "process_books w content' = Some out" "raised out = None"
      "process_books_scan (readlines content') = Some (i, T)" for w out i T
  proof -
    from that(3) have first: "first_unprocessed (readlines content') i T" by (rule scan_Some)
    from process_books_success [OF first that(1,2)]
    have "readlines (worklist out) = (readlines content')[i := processed_line T]"
      using readlines_marked_update [OF first] by simp
    moreover have "i < length (readlines content')"
      using first by (simp add: first_unprocessed_def)
    ultimately show ?thesis by (simp add: marked_processed_line)
  qed
  have fresh: "marked_lines content = 0 \<longrightarrow> marked_lines content' \<le> length ws"
    using count by simp
  from count fresh len kept next_run show ?thesis by blast
qed

theorem marker_is_idempotent_witness:
  "(case invocations [good_world, exhausted_world, good_world] books_txt of
      None \<Rightarrow> False
    | Some content' \<Rightarrow>
        marked_lines content' \<le> marked_lines books_txt + 3
        \<and> marked (readlines content' ! 0)
        \<and> readlines content' ! 0 = readlines books_txt ! 0)"
proof -
  have good: "process_title good_world T \<noteq> None" for T
    using good_world_completes [of T] by auto
  have bad: "process_title exhausted_world T \<noteq> None" for T
    using exhausted_world_raises [of T] by auto
  have "\<forall>w\<in>set [good_world, exhausted_world, good_world]. \<forall>T. process_title w T \<noteq> None"
    using good bad by simp
  then obtain content' where
    run: "invocations [good_world, exhausted_world, good_world] books_txt = Some content'"
    using invocations_return by blast
  have first: "0 < length (readlines books_txt) \<and> marked (readlines books_txt ! 0)"
    by (simp add: readlines_books_txt marked_def startswith_def)
  from marker_is_idempotent [OF run] first run show ?thesis by simp
qed

text \<open>
  C3. When every attempt of the summary request fails, \<open>generate_book_summary\<close>
  returns its pair, and the concatenation of line 323 raises \<open>TypeError\<close>: the run
  of \<open>process_books\<close> ends with that exception. The work-list is left as it was, so
  the line of the title stays unmarked.
\<close>

theorem summary_exhaustion_raises_type_error:
  assumes "\<forall>k. int k < 3 \<longrightarrow> failed (w_post w k)"
    and "fst (service_youtube (w_auth w)) = Inr c"
    and "first_unprocessed (readlines content) i T"
  shows "\<exists>out. process_books w content = Some out
    \<and> raised out = Some TypeError \<and> worklist out = content"
proof -
  obtain tr where tr: "process_title w T = Some (Inl TypeError, tr)"
    using process_title_exhausted [OF assms(1)] by blast
  have scan: "process_books_scan (readlines content) = Some (i, T)"
    using assms(3) by (rule scan_first)
  obtain t0 where svc: "service_youtube (w_auth w) = (Inr c, t0)"
    using assms(2) by (cases "service_youtube (w_auth w)") simp
  show ?thesis by (simp add: process_books_def svc scan tr Let_def)
qed

theorem summary_exhaustion_raises_type_error_witness:
  "(case process_books exhausted_world books_txt of
      None \<Rightarrow> False
    | Some out \<Rightarrow> raised out = Some TypeError \<and> worklist out = books_txt)"
proof -
  have fails: "\<forall>k. int k < 3 \<longrightarrow> failed (w_post exhausted_world k)"
    by (simp add: exhausted_world_def good_world_def)
  have svc: "fst (service_youtube (w_auth exhausted_world)) = Inr valid_creds"
    by (simp add: exhausted_service)
  from summary_exhaustion_raises_type_error [OF fails svc books_txt_first]
  show ?thesis by auto
qed

text \<open>
  C4. \<open>generate_book_summary\<close> sends at most \<open>max_retries\<close> requests, and every
  sleep between them lasts \<open>delay\<close>. When every attempt fails by a transport
  exception or by a response that is not a success, it returns, after exactly
  \<open>max_retries\<close> attempts, the pair of the fixed message and the empty list. When
  the first attempt that does not fail so is a success response, it returns the string
  of that response's body. Under transport failures and responses (with a readable
  body) it never raises. A string is never equal to the pair, so the two results have
  different shapes.
\<close>

theorem generate_book_summary_bounded_retries:
  "int (length (filter is_post (snd (generate_book_summary post t m d)))) \<le> max 0 m
   \<and> set (sleeps (snd (generate_book_summary post t m d))) \<subseteq> {d}
   \<and> ((\<forall>k. int k < m \<longrightarrow> failed (post k)) \<longrightarrow>
        generate_book_summary post t m d =
          (Inr (Tuple ''Max retries reached. Unable to generate summary.'' []),
           concat (replicate (nat m) [Post (prompt_of t), Sleep d])))
   \<and> (\<forall>k s. int k < m \<and> (\<forall>j<k. failed (post j)) \<and> post k = Response 200 (Inr s) \<longrightarrow>
        generate_book_summary post t m d =
          (Inr (Str s),
           concat (replicate k [Post (prompt_of t), Sleep d]) @ [Post (prompt_of t)]))
   \<and> ((\<forall>k. int k < m \<longrightarrow> failed (post k) \<or> (\<exists>s. post k = Response 200 (Inr s))) \<longrightarrow>
        (\<exists>v. fst (generate_book_summary post t m d) = Inr v))
   \<and> (\<forall>s msg l. Str s \<noteq> Tuple msg l)"
proof -
  let ?g = "generate_book_summary post t m d"
  have posts: "int (length (filter is_post (snd ?g))) \<le> max 0 m"
    using loop_posts [of post "prompt_of t" m d 0] by (simp add: generate_book_summary_def)
  have naps: "set (sleeps (snd ?g)) \<subseteq> {d}"
    using loop_sleeps [of post "prompt_of t" m d 0] by (simp add: generate_book_summary_def)
  have exhausted: "?g = (Inr (Tuple ''Max retries reached. Unable to generate summary.'' []),
      concat (replicate (nat m) [Post (prompt_of t), Sleep d]))"
    if "\<forall>k. int k < m \<longrightarrow> failed (post k)"
    using loop_exhausted [of 0 m post "prompt_of t" d] that
    by (simp add: generate_book_summary_def)
  have success: "?g = (Inr (Str s),
      concat (replicate k [Post (prompt_of t), Sleep d]) @ [Post (prompt_of t)])"
    if "int k < m" "\<forall>j<k. failed (post j)" "post k = Response 200 (Inr s)" for k s
    using loop_first_success [of 0 k m post s "prompt_of t" d] that
    by (simp add: generate_book_summary_def)
  have returns: "\<exists>v. fst ?g = Inr v"
    if benign: "\<forall>k. int k < m \<longrightarrow> failed (post k) \<or> (\<exists>s. post k = Response 200 (Inr s))"
  proof (cases "\<forall>k. int k < m \<longrightarrow> failed (post k)")
    case True
    then show ?thesis using exhausted by simp
  next
    case False
    then obtain k0 where k0: "int k0 < m \<and> \<not> failed (post k0)" by blast
    define k where "k = (LEAST k. int k < m \<and> \<not> failed (post k))"
    have k: "int k < m \<and> \<not> failed (post k)"
      unfolding k_def using k0 by (rule LeastI)
    have before: "\<forall>j<k. failed (post j)"
    proof (intro allI impI)
      fix j assume "j < k"
      then have "\<not> (int j < m \<and> \<not> failed (post j))"
        unfolding k_def by (rule not_less_Least)
      moreover have "int j < m" using \<open>j < k\<close> k by simp
      ultimately show "failed (post j)" by simp
    qed
    from benign k obtain s where "post k = Response 200 (Inr s)" by blast
    with success [of k s] k before show ?thesis by simp
  qed
  from posts naps exhausted success returns show ?thesis by blast
qed

theorem generate_book_summary_bounded_retries_witness:
  "generate_book_summary flaky_post ''Dune'' 3 2 =
     (Inr (Str ''A summary''),
      [Post (prompt_of ''Dune''), Sleep 2, Post (prompt_of ''Dune''), Sleep 2,
       Post (prompt_of ''Dune'')])
   \<and> generate_book_summary (\<lambda>k. Response 503 (Inr ''busy'')) ''Dune'' 3 2 =
     (Inr (Tuple ''Max retries reached. Unable to generate summary.'' []),
      [Post (prompt_of ''Dune''), Sleep 2, Post (prompt_of ''Dune''), Sleep 2,
       Post (prompt_of ''Dune''), Sleep 2])"
proof -
  have before: "\<forall>j<2. failed (flaky_post j)"
    by (simp add: flaky_post_def less_Suc_eq numeral_2_eq_2)
  have hit: "int 2 < 3 \<and> (\<forall>j<2. failed (flaky_post j))
      \<and> flaky_post 2 = Response 200 (Inr ''A summary'')"
    using before by (simp add: flaky_post_def)
  have all_fail: "\<forall>k. int k < 3 \<longrightarrow> failed (Response 503 (Inr ''busy''))"
    by simp
  have one: "generate_book_summary flaky_post ''Dune'' 3 2 =
     (Inr (Str ''A summary''),
      concat (replicate 2 [Post (prompt_of ''Dune''), Sleep 2]) @ [Post (prompt_of ''Dune'')])"
    using generate_book_summary_bounded_retries [of flaky_post "''Dune''" 3 2] hit by blast
  have two: "generate_book_summary (\<lambda>k. Response 503 (Inr ''busy'')) ''Dune'' 3 2 =
     (Inr (Tuple ''Max retries reached. Unable to generate summary.'' []),
      concat (replicate (nat 3) [Post (prompt_of ''Dune''), Sleep 2]))"
    using generate_book_summary_bounded_retries [of "\<lambda>k. Response 503 (Inr ''busy'')" "''Dune''" 3 2]
      all_fail by blast
  from one two show ?thesis by (simp add: numeral_2_eq_2 numeral_3_eq_3)
qed

text \<open>
  C5. The directory name (slug) of a title is a function of the title alone: the three
  places that compute it (speech, thumbnail, driver) agree for every title, and what
  they compute is the specification's recipe (spaces to underscores, double quotes and
  colons removed, lowercased). So the speech file and the image are written where the
  driver looks for them. The title "The Hobbit: A Tale" gets the_hobbit_a_tale.
\<close>

theorem slug_same_in_every_component:
  "text_to_speech_safe_book_title t = slug_spec t
   \<and> generate_book_thumbnail_safe_book_title t = slug_spec t
   \<and> process_books_safe_book_title t = slug_spec t
   \<and> text_to_speech_speech_file_path parent t = process_books_audio_path parent t
   \<and> generate_book_thumbnail_image_path parent t = process_books_image_path parent t
   \<and> process_books_safe_book_title ''The Hobbit: A Tale'' = ''the_hobbit_a_tale''"
proof -
  have drv: "process_books_safe_book_title t = slug_spec t"
    by (rule safe_book_title_is_slug_spec)
  have tts: "text_to_speech_safe_book_title t = process_books_safe_book_title t"
    by (simp add: text_to_speech_safe_book_title_def process_books_safe_book_title_def)
  have img: "generate_book_thumbnail_safe_book_title t = process_books_safe_book_title t"
    by (simp add: generate_book_thumbnail_safe_book_title_def
        process_books_safe_book_title_def)
  have audio: "text_to_speech_speech_file_path parent t = process_books_audio_path parent t"
    by (simp add: text_to_speech_speech_file_path_def process_books_audio_path_def
        process_books_directory_path_def tts)
  have image: "generate_book_thumbnail_image_path parent t = process_books_image_path parent t"
    by (simp add: generate_book_thumbnail_image_path_def process_books_image_path_def
        process_books_directory_path_def joinpath_def img)
  have hobbit: "process_books_safe_book_title ''The Hobbit: A Tale'' = ''the_hobbit_a_tale''"
    by code_simp
  from drv tts img audio image hobbit show ?thesis by simp
qed

text \<open>
  C6. When the transcription of the first attempt arrives and the file can be written,
  \<open>generate_subtitles\<close> writes the transcription to, and returns, the audio path
  with every occurrence of \<open>.mp3\<close> replaced by \<open>.srt\<close> (line 178). For an audio
  path that holds \<open>.mp3\<close> before its suffix too, as the driver's path for the title
  "a.mp3 b" does, that is not the sibling of the audio file: the directory is renamed
  as well.
\<close>

theorem generate_subtitles_replaces_every_mp3:
  assumes "0 < max_retries" and "transcribe 0 = Some srt"
    and "can_write 0 (replace ''.mp3'' ''.srt'' audio_file_path)"
  shows "generate_subtitles transcribe can_write audio_file_path max_retries delay
     = (Some (replace ''.mp3'' ''.srt'' audio_file_path),
        [Transcribe audio_file_path,
         WriteFile (replace ''.mp3'' ''.srt'' audio_file_path) srt])"
  using assms by (rule subtitles_first_try)

theorem generate_subtitles_replaces_every_mp3_witness:
  "process_books_audio_path ''/app'' ''a.mp3 b'' = ''/app/Videos/a.mp3_b/voice.mp3''
   \<and> generate_subtitles (\<lambda>k. Some ''srt'') (\<lambda>k p. True) ''/app/Videos/a.mp3_b/voice.mp3'' 3 2
       = (Some ''/app/Videos/a.srt_b/voice.srt'',
          [Transcribe ''/app/Videos/a.mp3_b/voice.mp3'',
           WriteFile ''/app/Videos/a.srt_b/voice.srt'' ''srt''])
   \<and> ''/app/Videos/a.srt_b/voice.srt'' \<noteq> ''/app/Videos/a.mp3_b/voice.srt''"
proof -
  have path: "process_books_audio_path ''/app'' ''a.mp3 b'' = ''/app/Videos/a.mp3_b/voice.mp3''"
    by code_simp
  have rep: "replace ''.mp3'' ''.srt'' ''/app/Videos/a.mp3_b/voice.mp3''
      = ''/app/Videos/a.srt_b/voice.srt''"
    by code_simp
  have run: "generate_subtitles (\<lambda>k. Some ''srt'') (\<lambda>k p. True)
        ''/app/Videos/a.mp3_b/voice.mp3'' 3 2
      = (Some (replace ''.mp3'' ''.srt'' ''/app/Videos/a.mp3_b/voice.mp3''),
         [Transcribe ''/app/Videos/a.mp3_b/voice.mp3'',
          WriteFile (replace ''.mp3'' ''.srt'' ''/app/Videos/a.mp3_b/voice.mp3'') ''srt''])"
    by (rule generate_subtitles_replaces_every_mp3) simp_all
  from path run show ?thesis unfolding rep by simp
qed



text \<open>
  C9. With cached credentials that are expired and hold a refresh token, a refresh that
  raises ends \<open>service_youtube\<close> with that exception right after the refresh: nothing
  is printed, there is no login and no token is saved. \<open>service_google_drive\<close> at the
  same point prints the error, logs in and saves the new credentials.
\<close>

theorem refresh_failure_escapes_service_youtube:
  assumes "token_file a = Some (Inr c)" and "\<not> valid c" and "expired c"
    and "refresh_token c" and "refresh_result a = Inl e"
  shows "service_youtube a = (Inl e, [LoadToken ''youtube_token.pickle'', Refresh])
    \<and> (\<forall>c'. login_result a = Inr c' \<longrightarrow>
          snd (service_google_drive a)
            = [LoadToken ''token.json'', Refresh, Print ''Error refreshing access token'',
               Login, SaveToken ''token.json'' c', Build ''drive''])"
  using assms
  by (auto simp: service_youtube_def service_google_drive_def load_token_def build_def Let_def
      split: option.splits)

theorem refresh_failure_escapes_service_youtube_witness:
  "service_youtube stale_auth = (Inl RefreshError, [LoadToken ''youtube_token.pickle'', Refresh])
   \<and> service_google_drive stale_auth
       = (Inr valid_creds,
          [LoadToken ''token.json'', Refresh, Print ''Error refreshing access token'',
           Login, SaveToken ''token.json'' valid_creds, Build ''drive''])"
proof -
  have h: "token_file stale_auth = Some (Inr expired_creds)" "\<not> valid expired_creds"
    "expired expired_creds" "refresh_token expired_creds"
    "refresh_result stale_auth = Inl RefreshError"
    by (simp_all add: stale_auth_def expired_creds_def)
  have l: "login_result stale_auth = Inr valid_creds" by (simp add: stale_auth_def)
  from refresh_failure_escapes_service_youtube [OF h] l
  have yt: "service_youtube stale_auth
      = (Inl RefreshError, [LoadToken ''youtube_token.pickle'', Refresh])"
    and ev: "snd (service_google_drive stale_auth)
      = [LoadToken ''token.json'', Refresh, Print ''Error refreshing access token'',
         Login, SaveToken ''token.json'' valid_creds, Build ''drive'']"
    by blast+
  have "fst (service_google_drive stale_auth) = Inr valid_creds"
    by (simp add: service_google_drive_def load_token_def build_def stale_auth_def
        expired_creds_def Let_def)
  with yt ev show ?thesis by (simp add: prod_eq_iff)
qed



end
